theory Spec2Isabelle
  imports Complex_Main "HOL-Library.Word" "HOL-Library.AList"
begin

unbundle bit_operations_syntax

section \<open>The vCPU scheduling tracer (trace\_vcpu\_sched.py) and its report reader (threads.py)\<close>

text \<open>
  The tracer is the coroutine \<^verbatim>\<open>main\<close> and the C text \<^verbatim>\<open>ptext\<close> it hands to BCC.
  \<^verbatim>\<open>main\<close> is embedded as a function from the answers of the outside world (the file
  system, the control socket, BCC and the kernel, the interpreter) to the list of calls
  made and the way the run ends.
\<close>

type_synonym u8 = "8 word"
type_synonym u32 = "32 word"
type_synonym u64 = "64 word"

subsection \<open>Python dictionaries\<close>

text \<open>
  A Python \<^verbatim>\<open>dict\<close> keeps insertion order and replaces the value of a key that is
  already present in place; \<^const>\<open>AList.update\<close> is exactly that on an association list.
  \<^verbatim>\<open>d[k]\<close> is \<^const>\<open>map_of\<close>, with \<^verbatim>\<open>KeyError\<close> for \<^const>\<open>None\<close>.
\<close>

type_synonym ('k, 'v) dict = "('k \<times> 'v) list"

definition dict_set :: "('k, 'v) dict \<Rightarrow> 'k \<Rightarrow> 'v \<Rightarrow> ('k, 'v) dict" where
  "dict_set d k v = AList.update k v d"

definition dict_keys :: "('k, 'v) dict \<Rightarrow> 'k list" where
  "dict_keys d = map fst d"

subsection \<open>The text handed to BCC (ptext)\<close>

text \<open>
  \<^verbatim>\<open>ptext\<close> declares the hashes \<^verbatim>\<open>target_pids\<close>, \<^verbatim>\<open>sched_count\<close> and
  \<^verbatim>\<open>last_scheduled_cpu\<close>, the function \<^verbatim>\<open>make_key\<close> and the handler
  \<^verbatim>\<open>TRACEPOINT_PROBE(sched, sched_switch)\<close>. The body of the handler looks the scheduled-in
  thread up in \<^verbatim>\<open>target_pids\<close> and adds one to the counter of (thread, CPU), and then ends,
  on line 35, with a lone \<^verbatim>\<open>for\<close> directly before the closing brace. That is not a
  statement of C: the text does not compile, \<^verbatim>\<open>BPF(text=ptext)\<close> raises, and no handler is
  ever attached. The handler is therefore not embedded. What BCC answers to the load and
  what \<^verbatim>\<open>count_map.items()\<close> yields are answers of the outside world (\<open>bpf_load_ok\<close> and
  \<open>count_map_items\<close> below); for the text of this repository the first is a refusal, and
  the model keeps it open so that the lines after the load are covered as well. Only
  \<^verbatim>\<open>make_key\<close>, which fixes the keys that user space unpacks, is embedded:
  \<^verbatim>\<open>return ((u64)pid << 32) | (u64)cpu;\<close>
\<close>

definition make_key :: "u32 \<Rightarrow> u32 \<Rightarrow> u64" where
  "make_key pid cpu = push_bit 32 (ucast pid :: u64) OR (ucast cpu :: u64)"

subsection \<open>User space: the filter and the keys\<close>

text \<open>
  \<^verbatim>\<open>c_uint32(pid)\<close> and \<^verbatim>\<open>c_uint8(1)\<close> in \<^verbatim>\<open>target_map[c_uint32(pid)] = c_uint8(1)\<close>:
  ctypes truncates without a range check.
\<close>

definition c_uint32 :: "int \<Rightarrow> u32" where
  "c_uint32 i = word_of_int i"

definition c_uint8 :: "int \<Rightarrow> u8" where
  "c_uint8 i = word_of_int i"

text \<open>
  The keys and values that \<^verbatim>\<open>count_map.items()\<close> yields are ctypes objects over the
  eight bytes of the slot, in the byte order of the host (little-endian on the x86-64 and
  arm64 hosts the tracer runs on); \<^verbatim>\<open>int.from_bytes(key, "little")\<close> reads them back.
\<close>

definition buffer_bytes :: "u64 \<Rightarrow> u8 list" where
  "buffer_bytes w = map (\<lambda>i. ucast (drop_bit (8 * i) w)) [0..<8]"

fun int_from_bytes_little :: "u8 list \<Rightarrow> int" where
  "int_from_bytes_little [] = 0"
| "int_from_bytes_little (b # bs) = uint b + 256 * int_from_bytes_little bs"

text \<open>
  \<^verbatim>\<open>key_val = int.from_bytes(key, "little"); pid = key_val >> 32;
  cpu = key_val & 0xFFFFFFFF\<close>
\<close>

definition unpack_key :: "u8 list \<Rightarrow> int \<times> int" where
  "unpack_key key =
     (let key_val = int_from_bytes_little key;
          pid = drop_bit 32 key_val;
          cpu = key_val AND 0xFFFFFFFF
      in (pid, cpu))"

subsection \<open>User space: values, errors and the result dictionary\<close>

text \<open>
  Python's \<^verbatim>\<open>str\<close> of an \<^verbatim>\<open>int\<close>, which is what \<^verbatim>\<open>json.dump\<close> turns an integer
  dictionary key into.
\<close>

definition digit_char :: "nat \<Rightarrow> char" where
  "digit_char d = ''0123456789'' ! d"

fun digits :: "nat \<Rightarrow> string" where
  "digits n = (if n < 10 then [digit_char n] else digits (n div 10) @ [digit_char (n mod 10)])"

declare digits.simps [simp del]

definition str_int :: "int \<Rightarrow> string" where
  "str_int i = (if i < 0 then CHR ''-'' # digits (nat (- i)) else digits (nat i))"

text \<open>
  Python's \<^verbatim>\<open>int\<close> of a \<^verbatim>\<open>str\<close>, where the language fixes it: on ASCII text, blanks
  (space, tab, line feed, vertical tab, form feed, carriage return) are dropped at both
  ends, one sign is allowed, then decimal digits follow with single underscores between
  them, and nothing else.
\<close>

definition digit_val :: "char \<Rightarrow> nat option" where
  "digit_val c = (if c \<in> set ''0123456789'' then Some (of_char c - 48) else None)"

definition is_space :: "char \<Rightarrow> bool" where
  "is_space c = (c \<in> set [CHR '' '', CHR 0x09, CHR 0x0A, CHR 0x0B, CHR 0x0C, CHR 0x0D])"

definition is_ascii :: "string \<Rightarrow> bool" where
  "is_ascii s = list_all (\<lambda>c. (of_char c :: nat) < 128) s"

definition strip :: "string \<Rightarrow> string" where
  "strip s = rev (dropWhile is_space (rev (dropWhile is_space s)))"

fun py_digits :: "nat \<Rightarrow> bool \<Rightarrow> string \<Rightarrow> nat option" where
  "py_digits acc prev [] = (if prev then Some acc else None)"
| "py_digits acc prev (c # cs) =
     (case digit_val c of
        Some d \<Rightarrow> py_digits (10 * acc + d) True cs
      | None \<Rightarrow> if c = CHR ''_'' \<and> prev then py_digits acc False cs else None)"

definition int_of_ascii :: "string \<Rightarrow> int option" where
  "int_of_ascii s =
     (case strip s of
        [] \<Rightarrow> None
      | c # cs \<Rightarrow>
          if c = CHR ''-'' then map_option (\<lambda>n. - int n) (py_digits 0 False cs)
          else if c = CHR ''+'' then map_option int (py_digits 0 False cs)
          else map_option int (py_digits 0 False (c # cs)))"

datatype qmp_command = Cont | Stop | QueryCpusFast

datatype pykey = KStr string | KInt int

datatype error =
    ConnectError
  | ExecuteError qmp_command
  | KeyError pykey
  | BpfLoadError
  | ValueError
  | OSError

text \<open>
  One entry of the reply to \<^verbatim>\<open>query-cpus-fast\<close>, as far as \<^verbatim>\<open>main\<close> reads it. A field
  the reply lacks is \<^const>\<open>None\<close>; subscripting it raises \<^verbatim>\<open>KeyError\<close>.
\<close>

record cpu_props =
  core_id :: "int option"

record cpu_info =
  thread_id :: "int option"
  props :: "cpu_props option"

text \<open>
  \<^verbatim>\<open>for cpu_info in info: thread_map[cpu_info["thread-id"]] = cpu_info["props"]["core-id"]\<close>.
  Python evaluates the right-hand side of the assignment before the subscript of its
  target.
\<close>

fun build_thread_map :: "cpu_info list \<Rightarrow> (int, int) dict \<Rightarrow> error + (int, int) dict" where
  "build_thread_map [] thread_map = Inr thread_map"
| "build_thread_map (ci # info) thread_map =
     (case props ci of
        None \<Rightarrow> Inl (KeyError (KStr ''props''))
      | Some p \<Rightarrow>
          (case core_id p of
             None \<Rightarrow> Inl (KeyError (KStr ''core-id''))
           | Some core \<Rightarrow>
               (case thread_id ci of
                  None \<Rightarrow> Inl (KeyError (KStr ''thread-id''))
                | Some tid \<Rightarrow> build_thread_map info (dict_set thread_map tid core))))"

text \<open>The value \<^verbatim>\<open>{"vcpu": cpu, "scheds": {}}\<close> kept per thread.\<close>

record thread_report =
  vcpu :: int
  scheds :: "(int, int) dict"

type_synonym result = "(int, thread_report) dict"

text \<open>
  \<^verbatim>\<open>for pid, cpu in thread_map.items(): result[pid] = {"vcpu": cpu, "scheds": {}}\<close>
\<close>

fun init_result :: "(int, int) dict \<Rightarrow> result \<Rightarrow> result" where
  "init_result [] result = result"
| "init_result ((pid, cpu) # thread_map) result =
     init_result thread_map (dict_set result pid \<lparr>vcpu = cpu, scheds = []\<rparr>)"

text \<open>
  \<^verbatim>\<open>for key, count in count_map.items(): ... result[pid]["scheds"][cpu] = count_val\<close>.
  \<^verbatim>\<open>result[pid]\<close> raises \<^verbatim>\<open>KeyError\<close> for a thread that has no report.
\<close>

fun drain :: "(u8 list \<times> u8 list) list \<Rightarrow> result \<Rightarrow> error + result" where
  "drain [] result = Inr result"
| "drain ((key, count) # items) result =
     (let (pid, cpu) = unpack_key key;
          count_val = int_from_bytes_little count
      in case map_of result pid of
           None \<Rightarrow> Inl (KeyError (KInt pid))
         | Some report \<Rightarrow>
             drain items (dict_set result pid (report\<lparr>scheds := dict_set (scheds report) cpu count_val\<rparr>)))"

text \<open>
  \<^verbatim>\<open>json.dump(result, f, indent=2)\<close>, as the JSON value written: integer keys become
  their decimal strings, the members keep the order of the dictionaries.
\<close>

datatype json = JInt int | JObject "(string \<times> json) list"

definition dump_scheds :: "(int, int) dict \<Rightarrow> json" where
  "dump_scheds sc = JObject (map (\<lambda>(cpu, count). (str_int cpu, JInt count)) sc)"

definition dump_report :: "thread_report \<Rightarrow> json" where
  "dump_report r = JObject [(''vcpu'', JInt (vcpu r)), (''scheds'', dump_scheds (scheds r))]"

definition json_dump :: "result \<Rightarrow> json" where
  "json_dump result = JObject (map (\<lambda>(pid, r). (str_int pid, dump_report r)) result)"

text \<open>The drain step and the serializer together, from the thread map and the drained pairs.\<close>

definition run_artifact :: "(int, int) dict \<Rightarrow> (u8 list \<times> u8 list) list \<Rightarrow> error + json" where
  "run_artifact thread_map items =
     (case drain items (init_result thread_map []) of
        Inl err \<Rightarrow> Inl err
      | Inr result \<Rightarrow> Inr (json_dump result))"

subsection \<open>User space: the run of main\<close>

text \<open>
  The calls \<^verbatim>\<open>main\<close> makes on the outside world, in the order it makes them. A call is
  listed when it is made, whether or not it then fails. Output of the logger is not
  listed.
\<close>

datatype action =
    PathExists string
  | Sleep
  | QmpConnect string
  | ListenerEnter string
  | ListenerGet
  | ListenerExit
  | QmpExecute qmp_command
  | BpfLoad
  | TargetWrite u32 u8
  | QmpDisconnect
  | PidfdOpen int
  | SelectWait
  | CountItems
  | FileOpen string
  | JsonDump json

text \<open>
  How a run ends: the interpreter exits with a status (\<open>Exited 0\<close> when \<^verbatim>\<open>main\<close>
  returns and the module body ends), an exception leaves \<^verbatim>\<open>main\<close> uncaught (Python
  then exits with status 1), or a call never returns.
\<close>

datatype outcome = Exited nat | Raised error | Blocked

definition exit_status :: "outcome \<Rightarrow> nat option" where
  "exit_status out = (case out of Exited n \<Rightarrow> Some n | Raised _ \<Rightarrow> Some 1 | Blocked \<Rightarrow> None)"

text \<open>
  The answers of the outside world. \<open>socket_exists n\<close> is the answer of the \<open>n\<close>-th call
  of \<^verbatim>\<open>os.path.exists\<close>; \<open>bpf_load_ok\<close> tells whether BCC accepts the text handed to
  \<^verbatim>\<open>BPF\<close>; \<open>time_str\<close> is the text of \<^verbatim>\<open>time.time()\<close>; \<open>int_answer\<close> is what
  \<^verbatim>\<open>int\<close> answers where the language alone does not fix it; \<open>count_map_items\<close> is what
  \<^verbatim>\<open>count_map.items()\<close> yields, in the order in which the kernel enumerates the hash.
\<close>

record env =
  socket_exists :: "nat \<Rightarrow> bool"
  connect_ok :: bool
  cont_ok :: bool
  milestone_fires :: bool
  stop_ok :: bool
  query_reply :: "cpu_info list option"
  bpf_load_ok :: bool
  time_str :: string
  resume_ok :: bool
  int_answer :: "string \<Rightarrow> int option"
  pidfd_ok :: bool
  process_exits :: bool
  count_map_items :: "(u8 list \<times> u8 list) list"
  open_ok :: bool

text \<open>
  \<^verbatim>\<open>int(qemu_pid)\<close>, with \<^const>\<open>None\<close> for \<^verbatim>\<open>ValueError\<close>. On ASCII text of at most 640
  characters the language fixes the answer. Beyond that it is an answer of the outside
  world: on other characters the Unicode tables of the interpreter decide what is a blank
  and what is a digit, and on longer numerals the interpreter's limit on the number of
  digits (a setting; it is never applied to 640 digits or fewer) may refuse the conversion.
\<close>

definition py_int :: "env \<Rightarrow> string \<Rightarrow> int option" where
  "py_int e s = (if is_ascii s \<and> length s \<le> 640 then int_of_ascii s else int_answer e s)"

type_synonym run = "action list \<times> outcome"

definition then_do :: "action list \<Rightarrow> run \<Rightarrow> run" where
  "then_do acts r = (acts @ fst r, snd r)"

text \<open>
  \<^verbatim>\<open>while not os.path.exists(f"/tmp/{qemu_pid}.socket"): logger.info("waiting");
  time.sleep(1)\<close>. The loop need not end; \<^const>\<open>None\<close> is the run that polls for ever.
\<close>

partial_function (option) wait_socket ::
  "(nat \<Rightarrow> bool) \<Rightarrow> string \<Rightarrow> nat \<Rightarrow> action list \<Rightarrow> action list option" where
  "wait_socket path_exists path n tr =
     (if path_exists n then Some (tr @ [PathExists path])
      else wait_socket path_exists path (Suc n) (tr @ [PathExists path, Sleep]))"

declare wait_socket.simps [code]

text \<open>Lines 91-92: \<^verbatim>\<open>with open(file, "w") as f: json.dump(result, f, indent=2)\<close>\<close>

definition write_artifact :: "env \<Rightarrow> string \<Rightarrow> result \<Rightarrow> run" where
  "write_artifact e file result =
     (if \<not> open_ok e then ([FileOpen file], Raised OSError)
      else ([FileOpen file, JsonDump (json_dump result)], Exited 0))"

text \<open>Lines 84-89: the drain loop over \<^verbatim>\<open>count_map.items()\<close>.\<close>

definition drain_counts :: "env \<Rightarrow> string \<Rightarrow> result \<Rightarrow> run" where
  "drain_counts e file result =
     (case drain (count_map_items e) result of
        Inl err \<Rightarrow> ([CountItems], Raised err)
      | Inr result' \<Rightarrow> then_do [CountItems] (write_artifact e file result'))"

text \<open>
  Lines 81-82: \<^verbatim>\<open>pidfd = os.pidfd_open(int(qemu_pid), 0); select.select([pidfd], [], [])\<close>
\<close>

definition await_exit :: "env \<Rightarrow> string \<Rightarrow> string \<Rightarrow> result \<Rightarrow> run" where
  "await_exit e qemu_pid file result =
     (case py_int e qemu_pid of
        None \<Rightarrow> ([], Raised ValueError)
      | Some p \<Rightarrow>
          if \<not> pidfd_ok e then ([PidfdOpen p], Raised OSError)
          else if \<not> process_exits e then ([PidfdOpen p, SelectWait], Blocked)
          else then_do [PidfdOpen p, SelectWait] (drain_counts e file result))"

text \<open>Lines 78-79: \<^verbatim>\<open>await qmp.execute("cont"); await qmp.disconnect()\<close>\<close>

definition resume_guest :: "env \<Rightarrow> string \<Rightarrow> string \<Rightarrow> result \<Rightarrow> run" where
  "resume_guest e qemu_pid file result =
     (if \<not> resume_ok e then ([QmpExecute Cont], Raised (ExecuteError Cont))
      else then_do [QmpExecute Cont, QmpDisconnect] (await_exit e qemu_pid file result))"

text \<open>
  Lines 62-76: load the probe, write the filter, prepare \<^verbatim>\<open>result\<close> and the name of
  the file.
\<close>

definition attach_probe :: "env \<Rightarrow> string \<Rightarrow> (int, int) dict \<Rightarrow> run" where
  "attach_probe e qemu_pid thread_map =
     (if \<not> bpf_load_ok e then ([BpfLoad], Raised BpfLoadError)
      else
        (let result = init_result thread_map [];
             file = ''/tmp/trace_vcpu_sched-'' @ qemu_pid @ ''-'' @ time_str e @ ''.json''
         in then_do
              (BpfLoad # map (\<lambda>pid. TargetWrite (c_uint32 pid) (c_uint8 1)) (dict_keys thread_map))
              (resume_guest e qemu_pid file result)))"

text \<open>Lines 56-60: \<^verbatim>\<open>info = await qmp.execute("query-cpus-fast")\<close> and the thread map.\<close>

definition correlate :: "env \<Rightarrow> string \<Rightarrow> run" where
  "correlate e qemu_pid =
     (case query_reply e of
        None \<Rightarrow> ([QmpExecute QueryCpusFast], Raised (ExecuteError QueryCpusFast))
      | Some info \<Rightarrow>
          (case build_thread_map info [] of
             Inl err \<Rightarrow> ([QmpExecute QueryCpusFast], Raised err)
           | Inr thread_map \<Rightarrow>
               then_do [QmpExecute QueryCpusFast] (attach_probe e qemu_pid thread_map)))"

text \<open>
  Lines 51-54: \<^verbatim>\<open>with qmp.listener(names="ACPI_DEVICE_OST") as listener:
  await qmp.execute("cont"); await listener.get(); await qmp.execute("stop")\<close>.
  The \<^verbatim>\<open>with\<close> block is left on an exception too.
\<close>

definition milestone_window :: "env \<Rightarrow> string \<Rightarrow> run" where
  "milestone_window e qemu_pid =
     (if \<not> cont_ok e then
        ([ListenerEnter ''ACPI_DEVICE_OST'', QmpExecute Cont, ListenerExit],
         Raised (ExecuteError Cont))
      else if \<not> milestone_fires e then
        ([ListenerEnter ''ACPI_DEVICE_OST'', QmpExecute Cont, ListenerGet], Blocked)
      else if \<not> stop_ok e then
        ([ListenerEnter ''ACPI_DEVICE_OST'', QmpExecute Cont, ListenerGet, QmpExecute Stop,
          ListenerExit], Raised (ExecuteError Stop))
      else
        then_do
          [ListenerEnter ''ACPI_DEVICE_OST'', QmpExecute Cont, ListenerGet, QmpExecute Stop,
           ListenerExit]
          (correlate e qemu_pid))"

text \<open>Line 50: \<^verbatim>\<open>await qmp.connect(f"/tmp/{qemu_pid}.socket")\<close>\<close>

definition connect :: "env \<Rightarrow> string \<Rightarrow> run" where
  "connect e qemu_pid =
     (if \<not> connect_ok e then ([QmpConnect (''/tmp/'' @ qemu_pid @ ''.socket'')], Raised ConnectError)
      else then_do [QmpConnect (''/tmp/'' @ qemu_pid @ ''.socket'')] (milestone_window e qemu_pid))"

text \<open>\<^verbatim>\<open>async def main(qemu_pid: str)\<close>\<close>

definition main :: "env \<Rightarrow> string \<Rightarrow> run option" where
  "main e qemu_pid =
     (case wait_socket (socket_exists e) (''/tmp/'' @ qemu_pid @ ''.socket'') 0 [] of
        None \<Rightarrow> None
      | Some tr \<Rightarrow> Some (then_do tr (connect e qemu_pid)))"

text \<open>
  The module body: \<^verbatim>\<open>if len(sys.argv) != 2: sys.exit(1)\<close>, then
  \<^verbatim>\<open>asyncio.run(main(qemu_pid=sys.argv[1]))\<close>. \<open>argv\<close> starts with the name of the script.
\<close>

definition script :: "env \<Rightarrow> string list \<Rightarrow> run option" where
  "script e argv =
     (if length argv \<noteq> 2 then Some ([], Exited 1)
      else main e (argv ! 1))"

subsection \<open>The report reader (threads.py)\<close>

text \<open>
  One value of the loaded artifact, as \<^verbatim>\<open>analyze_thread_data\<close> reads it with
  \<^verbatim>\<open>thread_info.get('vcpu', 0)\<close> and \<^verbatim>\<open>thread_info.get('scheds', {})\<close>.
\<close>

record thread_info =
  info_vcpu :: "int option"
  info_scheds :: "(string, int) dict option"

record thread_entry =
  entry_instance_id :: string
  entry_thread_id :: string
  entry_vcpu :: int
  entry_total_scheds :: int
  entry_scheds :: "(string, int) dict"

text \<open>
  The body of the loop \<^verbatim>\<open>for thread_id, thread_info in data.items()\<close>, with
  \<^verbatim>\<open>total_scheds = scheds["0"]\<close> under the comment "Calculate total scheduling events for
  this thread".
\<close>

definition analyze_thread ::
  "string \<Rightarrow> string \<Rightarrow> thread_info \<Rightarrow> error + (string \<times> thread_entry)" where
  "analyze_thread instance_id tid ti =
     (let vcpu = (case info_vcpu ti of None \<Rightarrow> 0 | Some v \<Rightarrow> v);
          scheds = (case info_scheds ti of None \<Rightarrow> [] | Some sc \<Rightarrow> sc);
          thread_key = ''Instance-'' @ instance_id @ ''-Thread-'' @ tid
      in case map_of scheds ''0'' of
           None \<Rightarrow> Inl (KeyError (KStr ''0''))
         | Some total_scheds \<Rightarrow>
             Inr (thread_key,
                  \<lparr>entry_instance_id = instance_id, entry_thread_id = tid, entry_vcpu = vcpu,
                   entry_total_scheds = total_scheds, entry_scheds = scheds\<rparr>))"

text \<open>
  The loop of \<^verbatim>\<open>analyze_thread_data\<close> over the threads of one loaded file; the files are
  those named \<^verbatim>\<open>trace_vcpu_sched-*.json\<close> in the working directory, and \<open>instance_id\<close>
  is cut from the name of the file. An exception ends the whole analysis.
\<close>

fun analyze_thread_data ::
  "string \<Rightarrow> (string, thread_info) dict \<Rightarrow> (string, thread_entry) dict
     \<Rightarrow> error + (string, thread_entry) dict" where
  "analyze_thread_data instance_id [] thread_data = Inr thread_data"
| "analyze_thread_data instance_id ((tid, ti) # data) thread_data =
     (case analyze_thread instance_id tid ti of
        Inl err \<Rightarrow> Inl err
      | Inr (thread_key, entry) \<Rightarrow>
          analyze_thread_data instance_id data (dict_set thread_data thread_key entry))"

text \<open>
  \<^verbatim>\<open>percentage = (count / total_scheds) * 100 if total_scheds > 0 else 0\<close> in
  \<^verbatim>\<open>create_detailed_analysis\<close>; the quotient is taken exactly here, where Python rounds
  to a float.
\<close>

definition percentage :: "int \<Rightarrow> int \<Rightarrow> real" where
  "percentage count total_scheds =
     (if total_scheds > 0 then (of_int count / of_int total_scheds) * 100 else 0)"

subsection \<open>Notions used in the statements\<close>

text \<open>
  \<^verbatim>\<open>result[pid]["scheds"][cpu]\<close>, with \<^const>\<open>None\<close> where either subscript has no entry.
\<close>

definition scheds_of :: "result \<Rightarrow> int \<times> int \<Rightarrow> int option" where
  "scheds_of r pc = (case map_of r (fst pc) of None \<Rightarrow> None | Some rep \<Rightarrow> map_of (scheds rep) (snd pc))"


text \<open>
  Reading a decimal numeral back, the inverse of \<^const>\<open>digits\<close>.
\<close>

definition undigits :: "string \<Rightarrow> nat" where
  "undigits s = foldl (\<lambda>a c. 10 * a + (case digit_val c of None \<Rightarrow> 0 | Some d \<Rightarrow> d)) 0 s"

text \<open>
  The calls of the loop that waits for the control socket.
\<close>

definition is_poll :: "string \<Rightarrow> action \<Rightarrow> bool" where
  "is_poll path a = (a = PathExists path \<or> a = Sleep)"

text \<open>
  The calls made after the guest has been resumed for the measured interval.
\<close>

definition late :: "action \<Rightarrow> bool" where
  "late a = (case a of QmpDisconnect \<Rightarrow> True | PidfdOpen _ \<Rightarrow> True | SelectWait \<Rightarrow> True
     | CountItems \<Rightarrow> True | FileOpen _ \<Rightarrow> True | JsonDump _ \<Rightarrow> True | _ \<Rightarrow> False)"

subsection \<open>Values for the scenarios\<close>

text \<open>
  Concrete values for the scenarios below: a complete entry of the reply, one slot of
  \<^verbatim>\<open>sched_count\<close> as \<^verbatim>\<open>items()\<close> yields it, an outside world in which every call
  succeeds, and the same world with the load of the probe refused, as BCC refuses the text
  of this repository.
\<close>

definition cpu_entry :: "int \<Rightarrow> int \<Rightarrow> cpu_info" where
  "cpu_entry tid core = \<lparr>thread_id = Some tid, props = Some \<lparr>core_id = Some core\<rparr>\<rparr>"

definition slot :: "int \<Rightarrow> int \<Rightarrow> int \<Rightarrow> u8 list \<times> u8 list" where
  "slot pid cpu n = (buffer_bytes (make_key (c_uint32 pid) (c_uint32 cpu)), buffer_bytes (word_of_int n))"

definition env_ok :: env where
  "env_ok =
     \<lparr>socket_exists = (\<lambda>n. 1 \<le> n), connect_ok = True, cont_ok = True, milestone_fires = True,
      stop_ok = True, query_reply = Some [cpu_entry 1001 0, cpu_entry 1002 1], bpf_load_ok = True,
      time_str = ''1700000000.5'', resume_ok = True, int_answer = (\<lambda>s. None), pidfd_ok = True,
      process_exits = True, count_map_items = [slot 1001 0 2, slot 1002 3 1], open_ok = True\<rparr>"

definition env_rejected :: env where
  "env_rejected = env_ok\<lparr>bpf_load_ok := False\<rparr>"

section \<open>Key packing\<close>

lemma from_bytes_range:
  "int_from_bytes_little (map (\<lambda>i. ucast (drop_bit (8 * i) w) :: u8) [k..<k + n])
     = take_bit (8 * n) (drop_bit (8 * k) (uint (w :: u64)))"
proof (induction n arbitrary: k)
  case 0
  show ?case by simp
next
  case (Suc n)
  define x where "x = drop_bit (8 * k) (uint w)"
  let ?f = "\<lambda>i. ucast (drop_bit (8 * i) w) :: u8"
  have range: "[k..<k + Suc n] = k # [Suc k..<Suc k + n]"
    by (simp add: upt_conv_Cons)
  have full: "take_bit 64 (uint w) = uint w"
    using uint_bounded [of w] by (simp add: take_bit_int_eq_self)
  have low: "uint (?f k) = take_bit 8 x"
    by (simp add: x_def unsigned_ucast_eq unsigned_drop_bit_eq full)
  have high: "drop_bit (8 * Suc k) (uint w) = drop_bit 8 x"
    by (simp add: x_def add.commute)
  have arith: "take_bit 8 x + 256 * take_bit (8 * n) (drop_bit 8 x) = take_bit (8 * Suc n) x"
    using zmod_zmult2_eq [of "2 ^ (8 * n)" x 256]
    by (simp add: take_bit_eq_mod drop_bit_eq_div power_add)
  have "int_from_bytes_little (map ?f [k..<k + Suc n])
          = uint (?f k) + 256 * int_from_bytes_little (map ?f [Suc k..<Suc k + n])"
    by (simp only: range list.map int_from_bytes_little.simps)
  also have "\<dots> = take_bit 8 x + 256 * take_bit (8 * n) (drop_bit 8 x)"
    by (simp only: low Suc.IH high)
  also have "\<dots> = take_bit (8 * Suc n) (drop_bit (8 * k) (uint w))"
    using arith by (simp only: x_def)
  finally show ?case .
qed

lemma from_bytes_buffer: "int_from_bytes_little (buffer_bytes w) = uint w"
proof -
  have "uint w < 2 ^ 64"
    using uint_bounded [of w] by simp
  then have "take_bit 64 (uint w) = uint w"
    by (simp add: take_bit_int_eq_self)
  then show ?thesis
    using from_bytes_range [of w 0 8] by (simp add: buffer_bytes_def del: upt_Suc)
qed

lemma key_high: "drop_bit 32 (uint (make_key p c)) = uint p"
  by (rule bit_eqI) (auto simp: make_key_def bit_simps dest: bit_imp_le_length)

lemma key_low: "uint (make_key p c) AND 0xFFFFFFFF = uint c"
proof -
  have m: "(0xFFFFFFFF :: int) = mask 32"
    by (simp add: mask_eq_exp_minus_1)
  have "take_bit 32 (uint (make_key p c)) = uint c"
    by (rule bit_eqI) (auto simp: make_key_def bit_simps dest: bit_imp_le_length)
  then show ?thesis
    by (simp only: m take_bit_eq_mask)
qed

lemma unpack_buffer_make_key: "unpack_key (buffer_bytes (make_key p c)) = (uint p, uint c)"
  by (simp add: unpack_key_def from_bytes_buffer key_high key_low Let_def)

text \<open>
  Claim C2. For every pair of unsigned 32-bit integers (threadID, cpuID): packing them
  with \<open>make_key\<close> (thread ID in the high 32 bits, CPU ID in the low 32 bits), handing
  the eight bytes of the key to user space, and unpacking there by a shift right of 32
  bits and a mask with \<^verbatim>\<open>0xFFFFFFFF\<close> gives back exactly the pair, as the unsigned
  values of the two words.
\<close>

theorem key_roundtrip:
  "unpack_key (buffer_bytes (make_key threadID cpuID)) = (uint threadID, uint cpuID)
   \<and> c_uint32 (fst (unpack_key (buffer_bytes (make_key threadID cpuID)))) = threadID
   \<and> c_uint32 (snd (unpack_key (buffer_bytes (make_key threadID cpuID)))) = cpuID"
  by (simp add: unpack_key_def from_bytes_buffer key_high key_low Let_def c_uint32_def)

section \<open>Dictionaries\<close>

lemma map_of_dict_set: "map_of (dict_set d k v) = (map_of d)(k \<mapsto> v)"
  by (simp add: dict_set_def update_conv')

lemma keys_dict_set_present:
  "map_of d k = Some x \<Longrightarrow> map fst (dict_set d k v) = map fst d"
  by (induction d) (auto simp: dict_set_def)

lemma keys_dict_set_absent:
  "k \<notin> fst ` set d \<Longrightarrow> dict_set d k v = d @ [(k, v)]"
  by (induction d) (auto simp: dict_set_def)

lemma distinct_dict_set:
  "distinct (map fst d) \<Longrightarrow> distinct (map fst (dict_set d k v))"
  by (simp add: dict_set_def distinct_update)

lemma dom_dict_set: "fst ` set (dict_set d k v) = insert k (fst ` set d)"
  by (simp add: dict_set_def dom_update)


section \<open>The drain loop\<close>

lemma drain_keys:
  "drain items r = Inr r' \<Longrightarrow> map fst r' = map fst r"
proof (induction items arbitrary: r)
  case Nil
  then show ?case by simp
next
  case (Cons it items)
  obtain key count where it: "it = (key, count)" by (cases it)
  obtain pid cpu where u: "unpack_key key = (pid, cpu)" by (cases "unpack_key key")
  from Cons.prems it u obtain rep where
    rep: "map_of r pid = Some rep" and
    rest: "drain items (dict_set r pid (rep\<lparr>scheds := dict_set (scheds rep) cpu (int_from_bytes_little count)\<rparr>)) = Inr r'"
    by (auto split: option.splits)
  from Cons.IH [OF rest] rep show ?case
    by (simp add: keys_dict_set_present)
qed

lemma drain_vcpu:
  "drain items r = Inr r' \<Longrightarrow> map_option vcpu (map_of r' pid) = map_option vcpu (map_of r pid)"
proof (induction items arbitrary: r)
  case Nil
  then show ?case by simp
next
  case (Cons it items)
  obtain key count where it: "it = (key, count)" by (cases it)
  obtain p cpu where u: "unpack_key key = (p, cpu)" by (cases "unpack_key key")
  from Cons.prems it u obtain rep where
    rep: "map_of r p = Some rep" and
    rest: "drain items (dict_set r p (rep\<lparr>scheds := dict_set (scheds rep) cpu (int_from_bytes_little count)\<rparr>)) = Inr r'"
    by (auto split: option.splits)
  from Cons.IH [OF rest] rep show ?case
    by (simp add: map_of_dict_set)
qed

lemma drain_untouched:
  "drain items r = Inr r' \<Longrightarrow> pid \<notin> fst ` unpack_key ` fst ` set items \<Longrightarrow> map_of r' pid = map_of r pid"
proof (induction items arbitrary: r)
  case Nil
  then show ?case by simp
next
  case (Cons it items)
  obtain key count where it: "it = (key, count)" by (cases it)
  obtain p cpu where u: "unpack_key key = (p, cpu)" by (cases "unpack_key key")
  from Cons.prems it u obtain rep where
    rep: "map_of r p = Some rep" and
    rest: "drain items (dict_set r p (rep\<lparr>scheds := dict_set (scheds rep) cpu (int_from_bytes_little count)\<rparr>)) = Inr r'"
    by (auto split: option.splits)
  from Cons.prems(2) it u have ne: "p \<noteq> pid" and notin: "pid \<notin> fst ` unpack_key ` fst ` set items"
    by force+
  from Cons.IH [OF rest notin] ne show ?case
    by (simp add: map_of_dict_set)
qed

lemma drain_unknown:
  "\<exists>it\<in>set items. fst (unpack_key (fst it)) \<notin> fst ` set r
     \<Longrightarrow> \<exists>pid. drain items r = Inl (KeyError (KInt pid)) \<and> pid \<notin> fst ` set r
             \<and> pid \<in> fst ` unpack_key ` fst ` set items"
proof (induction items arbitrary: r)
  case Nil
  then show ?case by simp
next
  case (Cons it items)
  obtain key count where it: "it = (key, count)" by (cases it)
  obtain p cpu where u: "unpack_key key = (p, cpu)" by (cases "unpack_key key")
  show ?case
  proof (cases "map_of r p")
    case None
    then have "p \<notin> fst ` set r" by (simp add: map_of_eq_None_iff)
    with None it u show ?thesis by force
  next
    case (Some rep)
    let ?r1 = "dict_set r p (rep\<lparr>scheds := dict_set (scheds rep) cpu (int_from_bytes_little count)\<rparr>)"
    from Some have pin: "p \<in> fst ` set r" by (metis map_of_eq_None_iff option.distinct(1))
    then have dom: "fst ` set ?r1 = fst ` set r" by (auto simp: dom_dict_set)
    from Cons.prems it u pin have "\<exists>it\<in>set items. fst (unpack_key (fst it)) \<notin> fst ` set ?r1"
      by (auto simp: dom)
    from Cons.IH [OF this] obtain pid where
      "drain items ?r1 = Inl (KeyError (KInt pid))" "pid \<notin> fst ` set ?r1"
      "pid \<in> fst ` unpack_key ` fst ` set items" by blast
    with Some it u dom show ?thesis by auto
  qed
qed

lemma drain_known:
  "\<forall>it\<in>set items. fst (unpack_key (fst it)) \<in> fst ` set r \<Longrightarrow> \<exists>r'. drain items r = Inr r'"
proof (induction items arbitrary: r)
  case Nil
  then show ?case by simp
next
  case (Cons it items)
  obtain key count where it: "it = (key, count)" by (cases it)
  obtain p cpu where u: "unpack_key key = (p, cpu)" by (cases "unpack_key key")
  from Cons.prems it u have pin: "p \<in> fst ` set r" by auto
  then obtain rep where rep: "map_of r p = Some rep"
    by (metis map_of_eq_None_iff not_Some_eq)
  let ?r1 = "dict_set r p (rep\<lparr>scheds := dict_set (scheds rep) cpu (int_from_bytes_little count)\<rparr>)"
  from pin have dom: "fst ` set ?r1 = fst ` set r" by (auto simp: dom_dict_set)
  from Cons.prems have "\<forall>it\<in>set items. fst (unpack_key (fst it)) \<in> fst ` set ?r1"
    by (simp add: dom)
  from Cons.IH [OF this] rep it u show ?case by simp
qed

lemma drain_scheds:
  "drain items r = Inr r' \<Longrightarrow>
   scheds_of r' pc =
     (case map_of (rev (map (\<lambda>(k, c). (unpack_key k, int_from_bytes_little c)) items)) pc of
        Some v \<Rightarrow> Some v | None \<Rightarrow> scheds_of r pc)"
proof (induction items arbitrary: r)
  case Nil
  then show ?case by simp
next
  case (Cons it items)
  obtain key count where it: "it = (key, count)" by (cases it)
  obtain p cpu where u: "unpack_key key = (p, cpu)" by (cases "unpack_key key")
  from Cons.prems it u obtain rep where
    rep: "map_of r p = Some rep" and
    rest: "drain items (dict_set r p (rep\<lparr>scheds := dict_set (scheds rep) cpu (int_from_bytes_little count)\<rparr>)) = Inr r'"
    by (auto split: option.splits)
  let ?r1 = "dict_set r p (rep\<lparr>scheds := dict_set (scheds rep) cpu (int_from_bytes_little count)\<rparr>)"
  have step: "scheds_of ?r1 pc = (if pc = (p, cpu) then Some (int_from_bytes_little count) else scheds_of r pc)"
    using rep by (cases pc) (auto simp: scheds_of_def map_of_dict_set)
  show ?case
    using Cons.IH [OF rest, of ] it u step
    by (auto simp: map_add_def split: option.splits)
qed

text \<open>
  Claim C6. For every drained sequence: if some key unpacks to a thread ID that has no
  report, the drain loop raises (Python's \<^verbatim>\<open>KeyError\<close>, which is how the code surfaces
  the unknown thread) on a thread ID of the sequence that has no report, and nothing is
  returned; otherwise the loop returns, keeps the threads of the result, and every
  (thread, CPU) slot of the result holds the count of the last pair drained for it, so
  that with pairwise different keys every pair is recorded in the report of its thread.
\<close>

theorem drain_surfaces_unknown_thread:
  "((\<exists>it\<in>set items. fst (unpack_key (fst it)) \<notin> fst ` set result) \<longrightarrow>
      (\<exists>pid. drain items result = Inl (KeyError (KInt pid)) \<and> pid \<notin> fst ` set result
             \<and> pid \<in> fst ` unpack_key ` fst ` set items))
   \<and> ((\<forall>it\<in>set items. fst (unpack_key (fst it)) \<in> fst ` set result) \<longrightarrow>
      (\<exists>result'. drain items result = Inr result' \<and> map fst result' = map fst result
         \<and> (\<forall>pc. scheds_of result' pc =
               (case map_of (rev (map (\<lambda>(k, c). (unpack_key k, int_from_bytes_little c)) items)) pc of
                  Some v \<Rightarrow> Some v | None \<Rightarrow> scheds_of result pc))
         \<and> (distinct (map (unpack_key \<circ> fst) items) \<longrightarrow>
              (\<forall>it\<in>set items. scheds_of result' (unpack_key (fst it)) = Some (int_from_bytes_little (snd it))))))"
proof (intro conjI impI)
  assume "\<exists>it\<in>set items. fst (unpack_key (fst it)) \<notin> fst ` set result"
  then show "\<exists>pid. drain items result = Inl (KeyError (KInt pid)) \<and> pid \<notin> fst ` set result
             \<and> pid \<in> fst ` unpack_key ` fst ` set items"
    by (rule drain_unknown)
next
  assume "\<forall>it\<in>set items. fst (unpack_key (fst it)) \<in> fst ` set result"
  from drain_known [OF this] obtain r' where dr: "drain items result = Inr r'" by blast
  let ?kv = "map (\<lambda>(k, c). (unpack_key k, int_from_bytes_little c)) items"
  have gen: "\<forall>pc. scheds_of r' pc = (case map_of (rev ?kv) pc of Some v \<Rightarrow> Some v | None \<Rightarrow> scheds_of result pc)"
    using drain_scheds [OF dr] by blast
  have dist: "\<forall>it\<in>set items. scheds_of r' (unpack_key (fst it)) = Some (int_from_bytes_little (snd it))"
    if d: "distinct (map (unpack_key \<circ> fst) items)"
  proof
    fix it assume it: "it \<in> set items"
    have fstkv: "map fst (rev ?kv) = rev (map (unpack_key \<circ> fst) items)"
      by (simp add: rev_map case_prod_beta comp_def)
    have "distinct (map fst (rev ?kv))"
      unfolding fstkv using d by simp
    moreover have "(unpack_key (fst it), int_from_bytes_little (snd it)) \<in> set (rev ?kv)"
      using it by (force simp: case_prod_beta)
    ultimately have "map_of (rev ?kv) (unpack_key (fst it)) = Some (int_from_bytes_little (snd it))"
      by (rule map_of_is_SomeI)
    with drain_scheds [OF dr, of "unpack_key (fst it)"]
    show "scheds_of r' (unpack_key (fst it)) = Some (int_from_bytes_little (snd it))"
      by simp
  qed
  show "\<exists>result'. drain items result = Inr result' \<and> map fst result' = map fst result
         \<and> (\<forall>pc. scheds_of result' pc =
               (case map_of (rev ?kv) pc of Some v \<Rightarrow> Some v | None \<Rightarrow> scheds_of result pc))
         \<and> (distinct (map (unpack_key \<circ> fst) items) \<longrightarrow>
              (\<forall>it\<in>set items. scheds_of result' (unpack_key (fst it)) = Some (int_from_bytes_little (snd it))))"
    using dr drain_keys [OF dr] gen dist by blast
qed

text \<open>
  Claim C6 at two drained sequences over the report of thread 1001: one with a key of the
  unregistered thread 1003, one with two keys of thread 1001.
\<close>

theorem drain_surfaces_unknown_thread_witness:
  "list_ex (\<lambda>it. fst (unpack_key (fst it)) \<notin> fst ` set (init_result [(1001, 0)] []))
     [slot 1001 0 4, slot 1003 1 9]
   \<and> drain [slot 1001 0 4, slot 1003 1 9] (init_result [(1001, 0)] []) = Inl (KeyError (KInt 1003))
   \<and> (\<exists>pid. drain [slot 1001 0 4, slot 1003 1 9] (init_result [(1001, 0)] []) = Inl (KeyError (KInt pid))
         \<and> pid \<notin> fst ` set (init_result [(1001, 0)] [])
         \<and> pid \<in> fst ` unpack_key ` fst ` set [slot 1001 0 4, slot 1003 1 9])
   \<and> list_all (\<lambda>it. fst (unpack_key (fst it)) \<in> fst ` set (init_result [(1001, 0)] []))
       [slot 1001 0 4, slot 1001 1 9]
   \<and> distinct (map (unpack_key \<circ> fst) [slot 1001 0 4, slot 1001 1 9])
   \<and> drain [slot 1001 0 4, slot 1001 1 9] (init_result [(1001, 0)] [])
       = Inr [(1001, \<lparr>vcpu = 0, scheds = [(0, 4), (1, 9)]\<rparr>)]
   \<and> list_all (\<lambda>it. scheds_of [(1001, \<lparr>vcpu = 0, scheds = [(0, 4), (1, 9)]\<rparr>)] (unpack_key (fst it))
                       = Some (int_from_bytes_little (snd it)))
       [slot 1001 0 4, slot 1001 1 9]"
proof -
  let ?r = "init_result [(1001, 0)] []"
  let ?bad = "[slot 1001 0 4, slot 1003 1 9]"
  let ?ok = "[slot 1001 0 4, slot 1001 1 9]"
  have h1: "list_ex (\<lambda>it. fst (unpack_key (fst it)) \<notin> fst ` set ?r) ?bad"
    by code_simp
  have e1: "drain ?bad ?r = Inl (KeyError (KInt 1003))"
    by code_simp
  have h2: "list_all (\<lambda>it. fst (unpack_key (fst it)) \<in> fst ` set ?r) ?ok"
    by code_simp
  have h3: "distinct (map (unpack_key \<circ> fst) ?ok)"
    by code_simp
  have e2: "drain ?ok ?r = Inr [(1001, \<lparr>vcpu = 0, scheds = [(0, 4), (1, 9)]\<rparr>)]"
    by code_simp
  from h1 have c1: "\<exists>pid. drain ?bad ?r = Inl (KeyError (KInt pid)) \<and> pid \<notin> fst ` set ?r
         \<and> pid \<in> fst ` unpack_key ` fst ` set ?bad"
    using drain_surfaces_unknown_thread [of ?bad ?r] unfolding list_ex_iff by blast
  from h2 h3 have "\<exists>result'. drain ?ok ?r = Inr result'
      \<and> (\<forall>it\<in>set ?ok. scheds_of result' (unpack_key (fst it)) = Some (int_from_bytes_little (snd it)))"
    using drain_surfaces_unknown_thread [of ?ok ?r] unfolding list_all_iff by blast
  with e2 have c2: "list_all (\<lambda>it. scheds_of [(1001, \<lparr>vcpu = 0, scheds = [(0, 4), (1, 9)]\<rparr>)] (unpack_key (fst it))
                       = Some (int_from_bytes_little (snd it))) ?ok"
    unfolding list_all_iff by auto
  show ?thesis
    by (intro conjI) (rule h1 e1 c1 h2 h3 e2 c2)+
qed

section \<open>The artifact\<close>

subsection \<open>Decimal keys\<close>

lemma digit_val_digit_char: "d < 10 \<Longrightarrow> digit_val (digit_char d) = Some d"
proof -
  assume "d < 10"
  then have "d \<in> set [0..<10]" by simp
  then show ?thesis
    by (simp add: upt_rec digit_val_def digit_char_def) (elim disjE; simp)
qed

lemma undigits_digits: "undigits (digits n) = n"
proof (induction n rule: digits.induct)
  case (1 n)
  show ?case
  proof (cases "n < 10")
    case True
    then show ?thesis
      by (subst digits.simps) (simp add: undigits_def digit_val_digit_char)
  next
    case False
    then have "undigits (digits (n div 10)) = n div 10" using 1 by simp
    then show ?thesis
      using False
      by (subst digits.simps) (simp add: undigits_def digit_val_digit_char)
  qed
qed

lemma digits_inj: "digits m = digits n \<Longrightarrow> m = n"
  by (metis undigits_digits)

lemma digits_chars: "set (digits n) \<subseteq> set ''0123456789''"
proof (induction n rule: digits.induct)
  case (1 n)
  have dc: "digit_char d \<in> set ''0123456789''" if "d < 10" for d
  proof -
    from that have "d \<in> {0, 1, 2, 3, 4, 5, 6, 7, 8, 9}" by auto
    then show ?thesis by (auto simp: digit_char_def)
  qed
  show ?case
  proof (cases "n < 10")
    case True
    then show ?thesis
      using dc [of n] by (subst digits.simps) simp
  next
    case False
    then show ?thesis
      using 1 dc [of "n mod 10"] by (subst digits.simps) simp
  qed
qed

lemma digits_no_minus: "digits n \<noteq> CHR ''-'' # s"
proof
  assume "digits n = CHR ''-'' # s"
  then have "CHR ''-'' \<in> set (digits n)" by simp
  with digits_chars [of n] show False by auto
qed

lemma str_int_inj: "str_int i = str_int j \<Longrightarrow> i = j"
  using digits_no_minus [of "nat i"] digits_no_minus [of "nat j"]
    digits_no_minus [of "nat i", symmetric] digits_no_minus [of "nat j", symmetric]
  by (auto simp: str_int_def split: if_splits dest!: digits_inj)

lemma inj_str_int: "inj str_int"
  by (rule injI) (rule str_int_inj)

lemma map_of_dump:
  "map_of (map (\<lambda>(pid, r). (str_int pid, f r)) result) (str_int pid) = map_option f (map_of result pid)"
  by (induction result) (auto dest: str_int_inj)

lemma keys_dump: "map fst (map (\<lambda>(pid, r). (str_int pid, f r)) result) = map str_int (map fst result)"
  by (induction result) auto

subsection \<open>The thread map and the initial result\<close>

lemma init_result_append:
  "distinct (map fst tm) \<Longrightarrow> fst ` set tm \<inter> fst ` set acc = {} \<Longrightarrow>
   init_result tm acc = acc @ map (\<lambda>(pid, cpu). (pid, \<lparr>vcpu = cpu, scheds = []\<rparr>)) tm"
proof (induction tm arbitrary: acc)
  case Nil
  then show ?case by simp
next
  case (Cons x tm)
  obtain pid cpu where x: "x = (pid, cpu)" by (cases x)
  from Cons.prems x have notin: "pid \<notin> fst ` set acc" by auto
  have "fst ` set tm \<inter> fst ` set (acc @ [(pid, \<lparr>vcpu = cpu, scheds = []\<rparr>)]) = {}"
    using Cons.prems x by auto
  with Cons.IH [of "acc @ [(pid, \<lparr>vcpu = cpu, scheds = []\<rparr>)]"] Cons.prems x notin
  show ?case by (simp add: keys_dict_set_absent)
qed

lemma init_result_map:
  "distinct (map fst tm) \<Longrightarrow> init_result tm [] = map (\<lambda>(pid, cpu). (pid, \<lparr>vcpu = cpu, scheds = []\<rparr>)) tm"
  using init_result_append [of tm "[]"] by simp

lemma build_thread_map_distinct:
  "build_thread_map info acc = Inr tm \<Longrightarrow> distinct (map fst acc) \<Longrightarrow> distinct (map fst tm)"
  by (induction info arbitrary: acc) (auto split: option.splits simp: distinct_dict_set)

lemma build_thread_map_keys:
  "build_thread_map info acc = Inr tm \<Longrightarrow>
   fst ` set tm = fst ` set acc \<union> {t. \<exists>ci\<in>set info. thread_id ci = Some t}"
proof (induction info arbitrary: acc)
  case Nil
  then show ?case by auto
next
  case (Cons ci info)
  from Cons.prems obtain p core tid where
    f: "props ci = Some p" "core_id p = Some core" "thread_id ci = Some tid" and
    rest: "build_thread_map info (dict_set acc tid core) = Inr tm"
    by (auto split: option.splits)
  from Cons.IH [OF rest] f show ?case
    by (auto simp: dom_dict_set)
qed




subsection \<open>Completeness\<close>

lemma artifact_shape:
  assumes tm: "distinct (map fst thread_map)"
      and art: "run_artifact thread_map items = Inr artifact"
  shows "\<exists>members. artifact = JObject members
           \<and> map fst members = map str_int (dict_keys thread_map)
           \<and> distinct (map fst members)
           \<and> (\<forall>(pid, core)\<in>set thread_map.
                 \<exists>sc. map_of members (str_int pid)
                        = Some (JObject [(''vcpu'', JInt core), (''scheds'', JObject sc)])
                    \<and> (pid \<notin> fst ` unpack_key ` fst ` set items \<longrightarrow> sc = []))"
proof -
  let ?r0 = "init_result thread_map []"
  from art obtain r where dr: "drain items ?r0 = Inr r" and a: "artifact = json_dump r"
    by (auto simp: run_artifact_def split: sum.splits)
  let ?members = "map (\<lambda>(pid, rep). (str_int pid, dump_report rep)) r"
  have r0: "?r0 = map (\<lambda>(pid, cpu). (pid, \<lparr>vcpu = cpu, scheds = []\<rparr>)) thread_map"
    using tm by (rule init_result_map)
  have keys0: "map fst ?r0 = map fst thread_map"
    unfolding r0 by (induction thread_map) auto
  have keys: "map fst r = map fst thread_map"
    using drain_keys [OF dr] keys0 by simp
  have "map fst ?members = map str_int (map fst r)"
    by (rule keys_dump)
  then have k1: "map fst ?members = map str_int (dict_keys thread_map)"
    by (simp only: keys dict_keys_def)
  have k2: "distinct (map fst ?members)"
  proof -
    have "inj_on str_int (set (map fst thread_map))"
      by (rule inj_on_subset [OF inj_str_int]) simp
    with tm have "distinct (map str_int (map fst thread_map))"
      by (rule distinct_map [THEN iffD2, OF conjI])
    then show ?thesis
      by (simp only: k1 dict_keys_def)
  qed
  have k3: "\<exists>sc. map_of ?members (str_int pid)
                  = Some (JObject [(''vcpu'', JInt core), (''scheds'', JObject sc)])
              \<and> (pid \<notin> fst ` unpack_key ` fst ` set items \<longrightarrow> sc = [])"
    if mem: "(pid, core) \<in> set thread_map" for pid core
  proof -
    from tm mem have "map_of thread_map pid = Some core" by simp
    then have init: "map_of ?r0 pid = Some \<lparr>vcpu = core, scheds = []\<rparr>"
      unfolding r0 by (induction thread_map) (auto split: if_splits)
    from drain_vcpu [OF dr, of pid] init obtain rep where
      rep: "map_of r pid = Some rep" and v: "vcpu rep = core"
      by auto
    have m: "map_of ?members (str_int pid) = Some (dump_report rep)"
      by (simp add: map_of_dump rep)
    have e: "scheds rep = []" if "pid \<notin> fst ` unpack_key ` fst ` set items"
      using drain_untouched [OF dr that] init rep by simp
    show ?thesis
      using m v e by (auto simp: dump_report_def dump_scheds_def)
  qed
  show ?thesis
    using a k1 k2 k3 by (auto simp: json_dump_def)
qed

text \<open>
  Claim C4. For every thread map the correlator resolves and every sequence of drained
  counts on which the run reaches the serializer, the object written has exactly one
  member per thread of the map, in the map's order and under the decimal thread ID, no
  other member, the threads being those the reply names; each member carries the thread's
  vcpu, and a thread no drained key names has an empty \<^verbatim>\<open>scheds\<close> object.
\<close>

theorem artifact_complete:
  assumes "build_thread_map info [] = Inr thread_map"
      and "run_artifact thread_map items = Inr artifact"
  shows "\<exists>members. artifact = JObject members
           \<and> map fst members = map str_int (dict_keys thread_map)
           \<and> distinct (map fst members)
           \<and> set (dict_keys thread_map) = {tid. \<exists>ci\<in>set info. thread_id ci = Some tid}
           \<and> (\<forall>(pid, core)\<in>set thread_map.
                 \<exists>sc. map_of members (str_int pid)
                        = Some (JObject [(''vcpu'', JInt core), (''scheds'', JObject sc)])
                    \<and> (pid \<notin> fst ` unpack_key ` fst ` set items \<longrightarrow> sc = []))"
proof -
  have d: "distinct (map fst thread_map)"
    using build_thread_map_distinct [OF assms(1)] by simp
  have k: "set (dict_keys thread_map) = {tid. \<exists>ci\<in>set info. thread_id ci = Some tid}"
    using build_thread_map_keys [OF assms(1)] by (simp add: dict_keys_def)
  from artifact_shape [OF d assms(2)] k show ?thesis by blast
qed

text \<open>
  Claim C4 at a reply with two threads, of which only thread 1001 was counted.
\<close>

theorem artifact_complete_witness:
  "build_thread_map [cpu_entry 1001 0, cpu_entry 1002 1] [] = Inr [(1001, 0), (1002, 1)]
   \<and> run_artifact [(1001, 0), (1002, 1)] [slot 1001 3 5]
       = Inr (JObject [(''1001'', JObject [(''vcpu'', JInt 0), (''scheds'', JObject [(''3'', JInt 5)])]),
                       (''1002'', JObject [(''vcpu'', JInt 1), (''scheds'', JObject [])])])
   \<and> (\<exists>members.
         JObject [(''1001'', JObject [(''vcpu'', JInt 0), (''scheds'', JObject [(''3'', JInt 5)])]),
                  (''1002'', JObject [(''vcpu'', JInt 1), (''scheds'', JObject [])])]
           = JObject members
         \<and> map fst members = map str_int (dict_keys [(1001, 0), (1002, 1 :: int)])
         \<and> distinct (map fst members)
         \<and> set (dict_keys [(1001, 0), (1002, 1 :: int)])
             = {tid. \<exists>ci\<in>set [cpu_entry 1001 0, cpu_entry 1002 1]. thread_id ci = Some tid}
         \<and> (\<forall>(pid, core)\<in>set [(1001, 0), (1002, 1)].
               \<exists>sc. map_of members (str_int pid)
                      = Some (JObject [(''vcpu'', JInt core), (''scheds'', JObject sc)])
                  \<and> (pid \<notin> fst ` unpack_key ` fst ` set [slot 1001 3 5] \<longrightarrow> sc = [])))"
proof -
  have a: "build_thread_map [cpu_entry 1001 0, cpu_entry 1002 1] [] = Inr [(1001, 0), (1002, 1)]"
    by code_simp
  have b: "run_artifact [(1001, 0), (1002, 1)] [slot 1001 3 5]
       = Inr (JObject [(''1001'', JObject [(''vcpu'', JInt 0), (''scheds'', JObject [(''3'', JInt 5)])]),
                       (''1002'', JObject [(''vcpu'', JInt 1), (''scheds'', JObject [])])])"
    by code_simp
  show ?thesis
    by (rule conjI [OF a conjI [OF b artifact_complete [OF a b]]])
qed

text \<open>
  Claim C5. With the thread map resolved from a reply that maps thread 1001 to vcpu 0 and
  thread 1002 to vcpu 1, and the kernel counts (1001,0):5000, (1001,1):5000, (1002,0):3000,
  (1002,2):7000 enumerated in that order, the value written is the object keyed by the
  decimal thread IDs, each member holding \<^verbatim>\<open>vcpu\<close> and the counts keyed by the decimal
  CPU IDs, exactly as the scenario lists it.
\<close>

theorem end_to_end_scenario:
  "build_thread_map [cpu_entry 1001 0, cpu_entry 1002 1] [] = Inr [(1001, 0), (1002, 1)]
   \<and> run_artifact [(1001, 0), (1002, 1)]
        [slot 1001 0 5000, slot 1001 1 5000, slot 1002 0 3000, slot 1002 2 7000]
      = Inr (JObject
          [(''1001'', JObject [(''vcpu'', JInt 0),
                               (''scheds'', JObject [(''0'', JInt 5000), (''1'', JInt 5000)])]),
           (''1002'', JObject [(''vcpu'', JInt 1),
                               (''scheds'', JObject [(''0'', JInt 3000), (''2'', JInt 7000)])])])"
  by code_simp



section \<open>The report reader\<close>

text \<open>
  Claim C8. The tracer writes a report with an empty \<^verbatim>\<open>scheds\<close> object for a thread that
  was never scheduled in; on that report the reader's \<^verbatim>\<open>total_scheds = scheds["0"]\<close>
  raises \<^verbatim>\<open>KeyError\<close>, before any percentage is computed. The guard of the percentage
  itself gives 0 for a total of 0.
\<close>

theorem total_of_empty_report_raises:
  "run_artifact [(1001, 0)] [] = Inr (JObject [(''1001'', JObject [(''vcpu'', JInt 0), (''scheds'', JObject [])])])
   \<and> analyze_thread ''4242'' ''1001'' \<lparr>info_vcpu = Some 0, info_scheds = Some []\<rparr>
       = Inl (KeyError (KStr ''0''))
   \<and> analyze_thread_data ''4242'' [(''1001'', \<lparr>info_vcpu = Some 0, info_scheds = Some []\<rparr>)] []
       = Inl (KeyError (KStr ''0''))
   \<and> percentage 0 0 = 0"
  by (simp add: percentage_def) code_simp

section \<open>The order of the calls in a run\<close>

lemma wait_socket_polls:
  assumes "wait_socket ex p n tr = Some r"
  shows "\<exists>polls. r = tr @ PathExists p # polls \<and> (\<forall>a\<in>set polls. a = PathExists p \<or> a = Sleep)"
proof (rule wait_socket.raw_induct
    [where P = "\<lambda>ex p n tr r. \<exists>polls. r = tr @ PathExists p # polls
                   \<and> (\<forall>a\<in>set polls. a = PathExists p \<or> a = Sleep)",
      OF _ assms])
  fix f :: "(nat \<Rightarrow> bool) \<Rightarrow> string \<Rightarrow> nat \<Rightarrow> action list \<Rightarrow> action list option"
  fix ex p n tr r
  assume IH: "\<And>ex p n tr r. f ex p n tr = Some r \<Longrightarrow>
                \<exists>polls. r = tr @ PathExists p # polls \<and> (\<forall>a\<in>set polls. a = PathExists p \<or> a = Sleep)"
    and step: "(if ex n then Some (tr @ [PathExists p])
                else f ex p (Suc n) (tr @ [PathExists p, Sleep])) = Some r"
  show "\<exists>polls. r = tr @ PathExists p # polls \<and> (\<forall>a\<in>set polls. a = PathExists p \<or> a = Sleep)"
  proof (cases "ex n")
    case True
    with step show ?thesis by auto
  next
    case False
    with step have "f ex p (Suc n) (tr @ [PathExists p, Sleep]) = Some r" by simp
    from IH [OF this] obtain polls where
      "r = (tr @ [PathExists p, Sleep]) @ PathExists p # polls"
      "\<forall>a\<in>set polls. a = PathExists p \<or> a = Sleep"
      by blast
    then show ?thesis
      by (intro exI [of _ "Sleep # PathExists p # polls"]) auto
  qed
qed

lemma skip_prefix:
  "a \<notin> set xs \<Longrightarrow> (xs @ ys = pre @ a # post) = (\<exists>pre'. pre = xs @ pre' \<and> ys = pre' @ a # post)"
proof (induction xs arbitrary: pre)
  case Nil
  then show ?case by auto
next
  case (Cons x xs)
  then show ?case
    by (cases pre) auto
qed

lemma unique_split:
  "a \<notin> set u \<Longrightarrow> a \<notin> set v \<Longrightarrow> (u @ a # v = pre @ a # post) = (pre = u \<and> post = v)"
proof -
  assume u: "a \<notin> set u" and v: "a \<notin> set v"
  have "(a # v = pre' @ a # post) = (pre' = [] \<and> post = v)" for pre'
    using v by (cases pre') auto
  with u show ?thesis by (auto simp: skip_prefix)
qed

lemma resume_guest_shape:
  "\<exists>rest. fst (resume_guest e qemu_pid file result) = QmpExecute Cont # rest \<and> list_all late rest"
  by (auto simp: resume_guest_def await_exit_def drain_counts_def write_artifact_def then_do_def late_def
      split: option.splits sum.splits)

lemma attach_probe_shape:
  "fst (attach_probe e qemu_pid tm) = [BpfLoad] \<and> \<not> bpf_load_ok e
   \<or> bpf_load_ok e \<and> (\<exists>rest. fst (attach_probe e qemu_pid tm)
        = BpfLoad # map (\<lambda>pid. TargetWrite (c_uint32 pid) (c_uint8 1)) (dict_keys tm) @ QmpExecute Cont # rest
        \<and> list_all late rest)"
  using resume_guest_shape
  by (auto simp: attach_probe_def then_do_def Let_def)

lemma correlate_shape:
  "fst (correlate e qemu_pid) = [QmpExecute QueryCpusFast]
   \<or> (\<exists>info tm. query_reply e = Some info \<and> build_thread_map info [] = Inr tm
        \<and> fst (correlate e qemu_pid) = QmpExecute QueryCpusFast # fst (attach_probe e qemu_pid tm))"
  by (auto simp: correlate_def then_do_def split: option.splits sum.splits)

lemma connect_shape:
  "fst (connect e qemu_pid) = [QmpConnect (''/tmp/'' @ qemu_pid @ ''.socket'')]
   \<or> fst (connect e qemu_pid)
       = [QmpConnect (''/tmp/'' @ qemu_pid @ ''.socket''), ListenerEnter ''ACPI_DEVICE_OST'',
          QmpExecute Cont, ListenerExit]
   \<or> fst (connect e qemu_pid)
       = [QmpConnect (''/tmp/'' @ qemu_pid @ ''.socket''), ListenerEnter ''ACPI_DEVICE_OST'',
          QmpExecute Cont, ListenerGet]
   \<or> fst (connect e qemu_pid)
       = [QmpConnect (''/tmp/'' @ qemu_pid @ ''.socket''), ListenerEnter ''ACPI_DEVICE_OST'',
          QmpExecute Cont, ListenerGet, QmpExecute Stop, ListenerExit]
   \<or> stop_ok e
     \<and> fst (connect e qemu_pid)
         = [QmpConnect (''/tmp/'' @ qemu_pid @ ''.socket''), ListenerEnter ''ACPI_DEVICE_OST'',
            QmpExecute Cont, ListenerGet, QmpExecute Stop, ListenerExit]
           @ fst (correlate e qemu_pid)"
  by (cases "connect_ok e"; cases "cont_ok e"; cases "milestone_fires e"; cases "stop_ok e";
      simp add: connect_def milestone_window_def then_do_def)

lemma main_shape:
  assumes run: "main e qemu_pid = Some (tr, out)"
  obtains
    (early) polls early where
      "list_all (is_poll (''/tmp/'' @ qemu_pid @ ''.socket'')) polls"
      "tr = polls @ QmpConnect (''/tmp/'' @ qemu_pid @ ''.socket'') # early"
      "early = [] \<or> early = [ListenerEnter ''ACPI_DEVICE_OST'', QmpExecute Cont, ListenerExit]
       \<or> early = [ListenerEnter ''ACPI_DEVICE_OST'', QmpExecute Cont, ListenerGet]
       \<or> early = [ListenerEnter ''ACPI_DEVICE_OST'', QmpExecute Cont, ListenerGet, QmpExecute Stop, ListenerExit]"
  | (queried) polls tail where
      "list_all (is_poll (''/tmp/'' @ qemu_pid @ ''.socket'')) polls"
      "stop_ok e"
      "tr = polls @ [QmpConnect (''/tmp/'' @ qemu_pid @ ''.socket''), ListenerEnter ''ACPI_DEVICE_OST'',
                     QmpExecute Cont, ListenerGet, QmpExecute Stop, ListenerExit, QmpExecute QueryCpusFast] @ tail"
      "tail = [] \<or> tail = [BpfLoad]"
  | (resumed) polls info tm rest where
      "list_all (is_poll (''/tmp/'' @ qemu_pid @ ''.socket'')) polls"
      "stop_ok e" "bpf_load_ok e"
      "query_reply e = Some info" "build_thread_map info [] = Inr tm"
      "tr = polls @ [QmpConnect (''/tmp/'' @ qemu_pid @ ''.socket''), ListenerEnter ''ACPI_DEVICE_OST'',
                     QmpExecute Cont, ListenerGet, QmpExecute Stop, ListenerExit, QmpExecute QueryCpusFast,
                     BpfLoad]
                @ map (\<lambda>pid. TargetWrite (c_uint32 pid) (c_uint8 1)) (dict_keys tm)
                @ QmpExecute Cont # rest"
      "list_all late rest"
proof -
  let ?sock = "''/tmp/'' @ qemu_pid @ ''.socket''"
  from run obtain w where w: "wait_socket (socket_exists e) ?sock 0 [] = Some w"
    and tr: "tr = w @ fst (connect e qemu_pid)"
    by (auto simp: main_def then_do_def split: option.splits)
  from wait_socket_polls [OF w] have polls: "list_all (is_poll ?sock) w"
    by (auto simp: list_all_iff is_poll_def)
  consider
    (a) "fst (connect e qemu_pid) = [QmpConnect ?sock]"
    | (b) "fst (connect e qemu_pid)
            = [QmpConnect ?sock, ListenerEnter ''ACPI_DEVICE_OST'', QmpExecute Cont, ListenerExit]"
    | (c) "fst (connect e qemu_pid)
            = [QmpConnect ?sock, ListenerEnter ''ACPI_DEVICE_OST'', QmpExecute Cont, ListenerGet]"
    | (d) "fst (connect e qemu_pid)
            = [QmpConnect ?sock, ListenerEnter ''ACPI_DEVICE_OST'', QmpExecute Cont, ListenerGet,
               QmpExecute Stop, ListenerExit]"
    | (f) "stop_ok e"
          "fst (connect e qemu_pid)
            = [QmpConnect ?sock, ListenerEnter ''ACPI_DEVICE_OST'', QmpExecute Cont, ListenerGet,
               QmpExecute Stop, ListenerExit] @ fst (correlate e qemu_pid)"
    using connect_shape [of e qemu_pid] by blast
  then show thesis
  proof cases
    case a
    with polls tr show thesis by (intro early [of w "[]"]) auto
  next
    case b
    with polls tr show thesis by (intro early [of w]) auto
  next
    case c
    with polls tr show thesis by (intro early [of w]) auto
  next
    case d
    with polls tr show thesis by (intro early [of w]) auto
  next
    case f
    from correlate_shape [of e qemu_pid] show thesis
    proof (elim disjE exE conjE)
      assume "fst (correlate e qemu_pid) = [QmpExecute QueryCpusFast]"
      with f polls tr show thesis by (intro queried [of w "[]"]) auto
    next
      fix info tm
      assume q: "query_reply e = Some info" "build_thread_map info [] = Inr tm"
        and c: "fst (correlate e qemu_pid) = QmpExecute QueryCpusFast # fst (attach_probe e qemu_pid tm)"
      from attach_probe_shape [of e qemu_pid tm] show thesis
      proof (elim disjE exE conjE)
        assume "fst (attach_probe e qemu_pid tm) = [BpfLoad]"
        with f c polls tr show thesis by (intro queried [of w "[BpfLoad]"]) auto
      next
        fix rest
        assume "bpf_load_ok e" "list_all late rest"
          "fst (attach_probe e qemu_pid tm)
             = BpfLoad # map (\<lambda>pid. TargetWrite (c_uint32 pid) (c_uint8 1)) (dict_keys tm) @ QmpExecute Cont # rest"
        with f c q polls tr show thesis by (intro resumed [of w info tm rest]) auto
      qed
    qed
  qed
qed

lemma poll_not:
  "list_all (is_poll p) polls \<Longrightarrow> QmpExecute c \<notin> set polls \<and> BpfLoad \<notin> set polls \<and> TargetWrite k v \<notin> set polls
     \<and> FileOpen f \<notin> set polls \<and> JsonDump j \<notin> set polls"
  by (auto simp: list_all_iff is_poll_def)

lemma late_not:
  "list_all late rest \<Longrightarrow> QmpExecute c \<notin> set rest \<and> BpfLoad \<notin> set rest \<and> TargetWrite k v \<notin> set rest"
  by (auto simp: list_all_iff late_def)

subsection \<open>The query\<close>

text \<open>
  Claim C10. In every run of \<^verbatim>\<open>main\<close>, wherever \<^verbatim>\<open>query-cpus-fast\<close> is issued, the
  \<^verbatim>\<open>stop\<close> command has been issued and has completed, the query follows it with only
  the exit of the listener block between them (so no \<^verbatim>\<open>cont\<close> lies between), the query
  is issued once, and every later \<^verbatim>\<open>cont\<close> comes after it; the guest is not stopped
  again.
\<close>

theorem query_only_while_paused:
  assumes run: "main e qemu_pid = Some (tr, out)"
      and at: "tr = pre @ QmpExecute QueryCpusFast # post"
  shows "stop_ok e
       \<and> (\<exists>before. pre = before @ [QmpExecute Stop, ListenerExit] \<and> QmpExecute Stop \<notin> set before)
       \<and> QmpExecute QueryCpusFast \<notin> set pre
       \<and> QmpExecute QueryCpusFast \<notin> set post
       \<and> QmpExecute Stop \<notin> set post"
  using run
proof (cases rule: main_shape)
  case (early polls early)
  from poll_not [OF early(1)] have "QmpExecute QueryCpusFast \<notin> set tr"
    using early(2,3) by auto
  with at show ?thesis by simp
next
  case (queried polls tail)
  let ?u = "polls @ [QmpConnect (''/tmp/'' @ qemu_pid @ ''.socket''), ListenerEnter ''ACPI_DEVICE_OST'',
                     QmpExecute Cont, ListenerGet, QmpExecute Stop, ListenerExit]"
  have tr: "tr = ?u @ QmpExecute QueryCpusFast # tail" using queried(3) by simp
  have u: "QmpExecute QueryCpusFast \<notin> set ?u" using poll_not [OF queried(1)] by simp
  have v: "QmpExecute QueryCpusFast \<notin> set tail" "QmpExecute Stop \<notin> set tail" using queried(4) by auto
  from at tr have "?u @ QmpExecute QueryCpusFast # tail = pre @ QmpExecute QueryCpusFast # post" by simp
  then have "pre = ?u" "post = tail" using unique_split [OF u v(1)] by auto
  with u v queried(2) poll_not [OF queried(1)] show ?thesis
    by (intro conjI exI [of _ "polls @ [QmpConnect (''/tmp/'' @ qemu_pid @ ''.socket''), ListenerEnter ''ACPI_DEVICE_OST'',
                     QmpExecute Cont, ListenerGet]"]) auto
next
  case (resumed polls info tm rest)
  let ?u = "polls @ [QmpConnect (''/tmp/'' @ qemu_pid @ ''.socket''), ListenerEnter ''ACPI_DEVICE_OST'',
                     QmpExecute Cont, ListenerGet, QmpExecute Stop, ListenerExit]"
  let ?v = "BpfLoad # map (\<lambda>pid. TargetWrite (c_uint32 pid) (c_uint8 1)) (dict_keys tm) @ QmpExecute Cont # rest"
  have tr: "tr = ?u @ QmpExecute QueryCpusFast # ?v" using resumed(6) by simp
  have u: "QmpExecute QueryCpusFast \<notin> set ?u" using poll_not [OF resumed(1)] by simp
  have v: "QmpExecute QueryCpusFast \<notin> set ?v" "QmpExecute Stop \<notin> set ?v"
    using late_not [OF resumed(7)] by auto
  from at tr have "?u @ QmpExecute QueryCpusFast # ?v = pre @ QmpExecute QueryCpusFast # post" by simp
  then have "pre = ?u" "post = ?v" using unique_split [OF u v(1)] by auto
  with u v resumed(2) poll_not [OF resumed(1)] show ?thesis
    by (intro conjI exI [of _ "polls @ [QmpConnect (''/tmp/'' @ qemu_pid @ ''.socket''), ListenerEnter ''ACPI_DEVICE_OST'',
                     QmpExecute Cont, ListenerGet]"]) auto
qed

text \<open>
  Claim C10 at the run in which every call succeeds.
\<close>

theorem query_only_while_paused_witness:
  "main env_ok ''4242''
     = Some ([PathExists ''/tmp/4242.socket'', Sleep, PathExists ''/tmp/4242.socket'',
              QmpConnect ''/tmp/4242.socket'', ListenerEnter ''ACPI_DEVICE_OST'', QmpExecute Cont,
              ListenerGet, QmpExecute Stop, ListenerExit]
             @ QmpExecute QueryCpusFast
             # [BpfLoad, TargetWrite 1001 1, TargetWrite 1002 1, QmpExecute Cont, QmpDisconnect,
                PidfdOpen 4242, SelectWait, CountItems,
                FileOpen ''/tmp/trace_vcpu_sched-4242-1700000000.5.json'',
                JsonDump (JObject
                  [(''1001'', JObject [(''vcpu'', JInt 0), (''scheds'', JObject [(''0'', JInt 2)])]),
                   (''1002'', JObject [(''vcpu'', JInt 1), (''scheds'', JObject [(''3'', JInt 1)])])])],
             Exited 0)
   \<and> stop_ok env_ok
   \<and> (\<exists>before.
         [PathExists ''/tmp/4242.socket'', Sleep, PathExists ''/tmp/4242.socket'',
          QmpConnect ''/tmp/4242.socket'', ListenerEnter ''ACPI_DEVICE_OST'', QmpExecute Cont,
          ListenerGet, QmpExecute Stop, ListenerExit]
           = before @ [QmpExecute Stop, ListenerExit]
         \<and> QmpExecute Stop \<notin> set before)"
proof -
  let ?pre = "[PathExists ''/tmp/4242.socket'', Sleep, PathExists ''/tmp/4242.socket'',
              QmpConnect ''/tmp/4242.socket'', ListenerEnter ''ACPI_DEVICE_OST'', QmpExecute Cont,
              ListenerGet, QmpExecute Stop, ListenerExit]"
  let ?post = "[BpfLoad, TargetWrite 1001 1, TargetWrite 1002 1, QmpExecute Cont, QmpDisconnect,
                PidfdOpen 4242, SelectWait, CountItems,
                FileOpen ''/tmp/trace_vcpu_sched-4242-1700000000.5.json'',
                JsonDump (JObject
                  [(''1001'', JObject [(''vcpu'', JInt 0), (''scheds'', JObject [(''0'', JInt 2)])]),
                   (''1002'', JObject [(''vcpu'', JInt 1), (''scheds'', JObject [(''3'', JInt 1)])])])]"
  have run: "main env_ok ''4242'' = Some (?pre @ QmpExecute QueryCpusFast # ?post, Exited 0)"
    by code_simp
  from query_only_while_paused [OF run refl]
  have "stop_ok env_ok"
    and "\<exists>before. ?pre = before @ [QmpExecute Stop, ListenerExit] \<and> QmpExecute Stop \<notin> set before"
    by blast+
  with run show ?thesis by blast
qed

subsection \<open>The two resumes\<close>






subsection \<open>What a run writes\<close>

lemma connect_dumps_run_artifact:
  assumes "JsonDump artifact \<in> set (fst (connect e qemu_pid))"
  shows "\<exists>info thread_map. query_reply e = Some info \<and> build_thread_map info [] = Inr thread_map
           \<and> run_artifact thread_map (count_map_items e) = Inr artifact"
proof -
  from assms obtain info tm r where
    "query_reply e = Some info" "build_thread_map info [] = Inr tm"
    "drain (count_map_items e) (init_result tm []) = Inr r"
    "artifact = json_dump r"
    by (auto simp: connect_def milestone_window_def correlate_def attach_probe_def resume_guest_def
        await_exit_def drain_counts_def write_artifact_def then_do_def Let_def
        split: option.splits sum.splits if_splits)
  then show ?thesis
    by (simp add: run_artifact_def)
qed

lemma main_dumps_run_artifact:
  assumes run: "main e qemu_pid = Some (tr, out)" and dump: "JsonDump artifact \<in> set tr"
  shows "\<exists>info thread_map. query_reply e = Some info \<and> build_thread_map info [] = Inr thread_map
           \<and> run_artifact thread_map (count_map_items e) = Inr artifact"
proof -
  from run obtain w where w: "wait_socket (socket_exists e) (''/tmp/'' @ qemu_pid @ ''.socket'') 0 [] = Some w"
    and tr: "tr = w @ fst (connect e qemu_pid)"
    by (auto simp: main_def then_do_def split: option.splits)
  from wait_socket_polls [OF w] have "JsonDump artifact \<notin> set w" by auto
  with dump tr have "JsonDump artifact \<in> set (fst (connect e qemu_pid))" by simp
  then show ?thesis by (rule connect_dumps_run_artifact)
qed

subsection \<open>The load of the probe\<close>

text \<open>
  Claim C3. The claim describes the handler of \<^verbatim>\<open>ptext\<close>; the text itself ends the
  handler with a lone \<^verbatim>\<open>for\<close> and is refused when it is loaded. In the run in which
  every call but the load succeeds, \<^verbatim>\<open>main\<close> raises at \<^verbatim>\<open>BPF(text=ptext)\<close>: the
  filter is never written, no counter is read, and no handler ever runs.
\<close>

theorem probe_load_rejected:
  "\<not> bpf_load_ok env_rejected
   \<and> main env_rejected ''4242''
       = Some ([PathExists ''/tmp/4242.socket'', Sleep, PathExists ''/tmp/4242.socket'',
                QmpConnect ''/tmp/4242.socket'', ListenerEnter ''ACPI_DEVICE_OST'', QmpExecute Cont,
                ListenerGet, QmpExecute Stop, ListenerExit, QmpExecute QueryCpusFast, BpfLoad],
               Raised BpfLoadError)"
  by code_simp

subsection \<open>The command line\<close>

lemma malformed_connect:
  "py_int e q = None \<Longrightarrow>
   snd (connect e q) \<noteq> Exited 0 \<and> FileOpen f \<notin> set (fst (connect e q)) \<and> JsonDump j \<notin> set (fst (connect e q))"
  by (auto simp: connect_def milestone_window_def correlate_def attach_probe_def resume_guest_def
      await_exit_def then_do_def Let_def split: option.splits sum.splits)

text \<open>
  Claim C7 as stated fails: with the argument \<^verbatim>\<open>abc\<close>, which \<^verbatim>\<open>int\<close> rejects, and a
  control socket at \<^verbatim>\<open>/tmp/abc.socket\<close>, the program waits for the socket, connects,
  runs the guest to the milestone, queries the vCPUs and hands the probe to BCC; the run
  ends there, with the error of the load.
\<close>

theorem malformed_pid_runs:
  "py_int env_rejected ''abc'' = None
   \<and> script env_rejected [''trace_vcpu_sched.py'', ''abc'']
       = Some ([PathExists ''/tmp/abc.socket'', Sleep, PathExists ''/tmp/abc.socket'',
                QmpConnect ''/tmp/abc.socket'', ListenerEnter ''ACPI_DEVICE_OST'', QmpExecute Cont,
                ListenerGet, QmpExecute Stop, ListenerExit, QmpExecute QueryCpusFast, BpfLoad],
               Raised BpfLoadError)"
  by code_simp

text \<open>
  Claim C7, amended. For every invocation whose argument list does not hold exactly one
  positional argument, the program exits with status 1 and makes no call at all. A single
  argument is not checked at entry: whatever it is, a run that ends starts with the poll
  for the socket named after it; and when \<^verbatim>\<open>int\<close> rejects the argument, the run opens
  no artifact file, writes nothing, and does not end with status 0.
\<close>

theorem wrong_arity_exits:
  "(length argv \<noteq> 2 \<longrightarrow> script e argv = Some ([], Exited 1) \<and> exit_status (Exited 1) = Some 1)
   \<and> (length argv = 2 \<and> script e argv = Some (tr, out) \<longrightarrow>
        (\<exists>rest. tr = PathExists (''/tmp/'' @ argv ! 1 @ ''.socket'') # rest))
   \<and> (length argv = 2 \<and> py_int e (argv ! 1) = None \<and> script e argv = Some (tr, out) \<longrightarrow>
        out \<noteq> Exited 0 \<and> (\<forall>f. FileOpen f \<notin> set tr) \<and> (\<forall>j. JsonDump j \<notin> set tr))"
proof -
  let ?q = "argv ! 1"
  have shape: "\<exists>polls. tr = PathExists (''/tmp/'' @ ?q @ ''.socket'') # polls @ fst (connect e ?q)
                 \<and> (\<forall>a\<in>set polls. a = PathExists (''/tmp/'' @ ?q @ ''.socket'') \<or> a = Sleep)
                 \<and> out = snd (connect e ?q)"
    if len: "length argv = 2" and sc: "script e argv = Some (tr, out)"
  proof -
    from sc len have run: "main e ?q = Some (tr, out)"
      by (simp only: script_def) simp
    then obtain w where w: "wait_socket (socket_exists e) (''/tmp/'' @ ?q @ ''.socket'') 0 [] = Some w"
      and tr: "tr = w @ fst (connect e ?q)" and out: "out = snd (connect e ?q)"
      by (auto simp: main_def then_do_def split: option.splits)
    from wait_socket_polls [OF w] tr out show ?thesis by auto
  qed
  show ?thesis
  proof (intro conjI impI)
    assume "length argv \<noteq> 2"
    then show "script e argv = Some ([], Exited 1)" by (simp add: script_def)
    show "exit_status (Exited 1) = Some 1" by (simp add: exit_status_def)
  next
    assume "length argv = 2 \<and> script e argv = Some (tr, out)"
    with shape show "\<exists>rest. tr = PathExists (''/tmp/'' @ ?q @ ''.socket'') # rest" by blast
  next
    assume a: "length argv = 2 \<and> py_int e ?q = None \<and> script e argv = Some (tr, out)"
    then have m: "py_int e ?q = None" by blast
    from a shape obtain polls where
      tr: "tr = PathExists (''/tmp/'' @ ?q @ ''.socket'') # polls @ fst (connect e ?q)"
      and polls: "\<forall>a\<in>set polls. a = PathExists (''/tmp/'' @ ?q @ ''.socket'') \<or> a = Sleep"
      and out: "out = snd (connect e ?q)"
      by blast
    show "out \<noteq> Exited 0" using malformed_connect [OF m] out by simp
    show "\<forall>f. FileOpen f \<notin> set tr" using malformed_connect [OF m] polls tr by auto
    show "\<forall>j. JsonDump j \<notin> set tr" using malformed_connect [OF m] polls tr by auto
  qed
qed

text \<open>
  Claim C7, amended, at an invocation without an argument and at the argument
  \<^verbatim>\<open>abc\<close>, once with the load of the probe refused and once with every call
  succeeding.
\<close>

theorem wrong_arity_exits_witness:
  "length [''trace_vcpu_sched.py''] \<noteq> 2
   \<and> script env_ok [''trace_vcpu_sched.py''] = Some ([], Exited 1)
   \<and> length [''trace_vcpu_sched.py'', ''abc''] = 2
   \<and> py_int env_rejected ([''trace_vcpu_sched.py'', ''abc''] ! 1) = None
   \<and> script env_rejected [''trace_vcpu_sched.py'', ''abc'']
       = Some ([PathExists ''/tmp/abc.socket'', Sleep, PathExists ''/tmp/abc.socket'',
                QmpConnect ''/tmp/abc.socket'', ListenerEnter ''ACPI_DEVICE_OST'', QmpExecute Cont,
                ListenerGet, QmpExecute Stop, ListenerExit, QmpExecute QueryCpusFast, BpfLoad],
               Raised BpfLoadError)
   \<and> (\<exists>rest. [PathExists ''/tmp/abc.socket'', Sleep, PathExists ''/tmp/abc.socket'',
                QmpConnect ''/tmp/abc.socket'', ListenerEnter ''ACPI_DEVICE_OST'', QmpExecute Cont,
                ListenerGet, QmpExecute Stop, ListenerExit, QmpExecute QueryCpusFast, BpfLoad]
               = PathExists (''/tmp/'' @ [''trace_vcpu_sched.py'', ''abc''] ! 1 @ ''.socket'') # rest)
   \<and> Raised BpfLoadError \<noteq> Exited 0
   \<and> (\<forall>f. FileOpen f \<notin> set [PathExists ''/tmp/abc.socket'', Sleep, PathExists ''/tmp/abc.socket'',
                QmpConnect ''/tmp/abc.socket'', ListenerEnter ''ACPI_DEVICE_OST'', QmpExecute Cont,
                ListenerGet, QmpExecute Stop, ListenerExit, QmpExecute QueryCpusFast, BpfLoad])
   \<and> py_int env_ok ([''trace_vcpu_sched.py'', ''abc''] ! 1) = None
   \<and> script env_ok [''trace_vcpu_sched.py'', ''abc'']
       = Some ([PathExists ''/tmp/abc.socket'', Sleep, PathExists ''/tmp/abc.socket'',
                QmpConnect ''/tmp/abc.socket'', ListenerEnter ''ACPI_DEVICE_OST'', QmpExecute Cont,
                ListenerGet, QmpExecute Stop, ListenerExit, QmpExecute QueryCpusFast, BpfLoad,
                TargetWrite 1001 1, TargetWrite 1002 1, QmpExecute Cont, QmpDisconnect],
               Raised ValueError)
   \<and> Raised ValueError \<noteq> Exited 0
   \<and> (\<forall>j. JsonDump j \<notin> set [PathExists ''/tmp/abc.socket'', Sleep, PathExists ''/tmp/abc.socket'',
                QmpConnect ''/tmp/abc.socket'', ListenerEnter ''ACPI_DEVICE_OST'', QmpExecute Cont,
                ListenerGet, QmpExecute Stop, ListenerExit, QmpExecute QueryCpusFast, BpfLoad,
                TargetWrite 1001 1, TargetWrite 1002 1, QmpExecute Cont, QmpDisconnect])"
proof -
  let ?args = "[''trace_vcpu_sched.py'', ''abc'']"
  let ?t1 = "[PathExists ''/tmp/abc.socket'', Sleep, PathExists ''/tmp/abc.socket'',
                QmpConnect ''/tmp/abc.socket'', ListenerEnter ''ACPI_DEVICE_OST'', QmpExecute Cont,
                ListenerGet, QmpExecute Stop, ListenerExit, QmpExecute QueryCpusFast, BpfLoad]"
  let ?t2 = "[PathExists ''/tmp/abc.socket'', Sleep, PathExists ''/tmp/abc.socket'',
                QmpConnect ''/tmp/abc.socket'', ListenerEnter ''ACPI_DEVICE_OST'', QmpExecute Cont,
                ListenerGet, QmpExecute Stop, ListenerExit, QmpExecute QueryCpusFast, BpfLoad,
                TargetWrite 1001 1, TargetWrite 1002 1, QmpExecute Cont, QmpDisconnect]"
  have l1: "length [''trace_vcpu_sched.py''] \<noteq> 2" by simp
  have l2: "length ?args = 2" by simp
  have m1: "py_int env_rejected (?args ! 1) = None" by code_simp
  have r1: "script env_rejected ?args = Some (?t1, Raised BpfLoadError)" by code_simp
  have m2: "py_int env_ok (?args ! 1) = None" by code_simp
  have r2: "script env_ok ?args = Some (?t2, Raised ValueError)" by code_simp
  from wrong_arity_exits [of "[''trace_vcpu_sched.py'']" env_ok] l1
  have a: "script env_ok [''trace_vcpu_sched.py''] = Some ([], Exited 1)"
    by blast
  from wrong_arity_exits [of ?args env_rejected ?t1 "Raised BpfLoadError"] l2 m1 r1
  have b: "\<exists>rest. ?t1 = PathExists (''/tmp/'' @ ?args ! 1 @ ''.socket'') # rest"
    "Raised BpfLoadError \<noteq> Exited 0" "\<forall>f. FileOpen f \<notin> set ?t1"
    by blast+
  from wrong_arity_exits [of ?args env_ok ?t2 "Raised ValueError"] l2 m2 r2
  have c: "Raised ValueError \<noteq> Exited 0" "\<forall>j. JsonDump j \<notin> set ?t2"
    by blast+
  show ?thesis
    by (intro conjI) (rule l1 a l2 m1 r1 b m2 r2 c)+
qed

end
